theory Spec2Isabelle
  imports Main
begin

section \<open>The remote store, object storage and the external services\<close>

text \<open>
  The script \<^verbatim>\<open>scripts/bulk-create-threads.ts\<close> (the directory-walking version, the
  second unit of the file) talks to three tables of a relational store (\<^verbatim>\<open>threads\<close>,
  \<^verbatim>\<open>tags\<close>, \<^verbatim>\<open>thread_tags\<close>), to one storage bucket, to the YouTube Data API and to the
  thumbnail host. None of them is code of the repository, so they are modelled as an
  explicit world that every call takes and returns.

  Keys are generated by the store; they are natural numbers here, handed out from
  \<open>next_key\<close>. The avatar path \<^verbatim>\<open>${thread.id}/avatar/${timestamp}.jpg\<close> is kept as the pair
  of the thread key and the timestamp; the placeholder \<^verbatim>\<open>""\<close> written at insertion is \<open>None\<close>.
\<close>

type_synonym key = nat

type_synonym object_path = "key \<times> nat"

record thread_row =
  t_id :: key
  t_name :: string
  t_youtube_id :: string
  t_youtube_title :: string
  t_avatar_path :: "object_path option"

record tag_row =
  tag_id :: key
  tag_name :: string

text \<open>Every request sent to the store or to the bucket, as the script issues it.\<close>

datatype call =
    Select_thread_by_youtube_id string
  | Select_thread_by_id key
  | Update_thread_name key string
  | Update_thread_title key string
  | Update_avatar_path key object_path
  | Insert_thread string string string
  | Delete_thread key
  | Upload object_path
  | Select_tag string
  | Insert_tag string
  | Select_thread_tags key
  | Delete_thread_tags key
  | Insert_thread_tags key "key list"

fun is_mutation :: "call \<Rightarrow> bool" where
  "is_mutation (Select_thread_by_youtube_id _) = False"
| "is_mutation (Select_thread_by_id _) = False"
| "is_mutation (Select_tag _) = False"
| "is_mutation (Select_thread_tags _) = False"
| "is_mutation _ = True"

text \<open>
  What happens to the next request: it is carried out (\<open>Proceed\<close>), it fails with an error
  and has no effect (\<open>Fault\<close>: store unreachable, timeout), or another client of the store
  commits a tag of the given name just before the request is carried out (\<open>Rival_tag\<close>).
  When the list of events is exhausted every request is carried out.
\<close>

datatype event = Proceed | Fault | Rival_tag string

record world =
  threads :: "thread_row list"
  tags :: "tag_row list"
  thread_tags :: "(key \<times> key) list"
  storage :: "object_path list"
  next_key :: key
  events :: "event list"
  log :: "(call \<times> bool) list"

definition rival_insert :: "string \<Rightarrow> world \<Rightarrow> world" where
  "rival_insert n w =
     (if n \<in> tag_name ` set (tags w) then w
      else w\<lparr>tags := tags w @ [\<lparr>tag_id = next_key w, tag_name = n\<rparr>],
              next_key := Suc (next_key w)\<rparr>)"

definition serve :: "world \<Rightarrow> bool \<times> world" where
  "serve w =
     (case events w of
        [] \<Rightarrow> (True, w)
      | Proceed # es \<Rightarrow> (True, w\<lparr>events := es\<rparr>)
      | Fault # es \<Rightarrow> (False, w\<lparr>events := es\<rparr>)
      | Rival_tag n # es \<Rightarrow> (True, (rival_insert n w)\<lparr>events := es\<rparr>))"

definition logged :: "call \<Rightarrow> bool \<Rightarrow> world \<Rightarrow> world" where
  "logged c ok w = w\<lparr>log := log w @ [(c, ok)]\<rparr>"

text \<open>
  \<^verbatim>\<open>.single()\<close> yields the row when exactly one row matches; with no row or with several
  rows it yields an error and no data.
\<close>

fun single :: "'a list \<Rightarrow> 'a option" where
  "single [x] = Some x"
| "single _ = None"

subsection \<open>The table \<^verbatim>\<open>threads\<close>\<close>

definition select_thread_by_youtube_id :: "string \<Rightarrow> world \<Rightarrow> thread_row option \<times> world" where
  "select_thread_by_youtube_id y w =
     (case serve w of (ok, w1) \<Rightarrow>
        ((if ok then single (filter (\<lambda>t. t_youtube_id t = y) (threads w1)) else None),
         logged (Select_thread_by_youtube_id y) ok w1))"

definition select_thread_by_id :: "key \<Rightarrow> world \<Rightarrow> thread_row option \<times> world" where
  "select_thread_by_id i w =
     (case serve w of (ok, w1) \<Rightarrow>
        ((if ok then single (filter (\<lambda>t. t_id t = i) (threads w1)) else None),
         logged (Select_thread_by_id i) ok w1))"

definition update_row :: "key \<Rightarrow> (thread_row \<Rightarrow> thread_row) \<Rightarrow> world \<Rightarrow> world" where
  "update_row i f w = w\<lparr>threads := map (\<lambda>t. if t_id t = i then f t else t) (threads w)\<rparr>"

definition update_thread_name :: "key \<Rightarrow> string \<Rightarrow> world \<Rightarrow> bool \<times> world" where
  "update_thread_name i n w =
     (case serve w of (ok, w1) \<Rightarrow>
        (ok, logged (Update_thread_name i n) ok
               (if ok then update_row i (\<lambda>t. t\<lparr>t_name := n\<rparr>) w1 else w1)))"

definition update_thread_title :: "key \<Rightarrow> string \<Rightarrow> world \<Rightarrow> bool \<times> world" where
  "update_thread_title i n w =
     (case serve w of (ok, w1) \<Rightarrow>
        (ok, logged (Update_thread_title i n) ok
               (if ok then update_row i (\<lambda>t. t\<lparr>t_youtube_title := n\<rparr>) w1 else w1)))"

definition update_avatar_path :: "key \<Rightarrow> object_path \<Rightarrow> world \<Rightarrow> bool \<times> world" where
  "update_avatar_path i p w =
     (case serve w of (ok, w1) \<Rightarrow>
        (ok, logged (Update_avatar_path i p) ok
               (if ok then update_row i (\<lambda>t. t\<lparr>t_avatar_path := Some p\<rparr>) w1 else w1)))"

text \<open>
  The source inserts into \<^verbatim>\<open>threads\<close> without any conflict handling and the repository
  declares no constraint on the table, so an insert that is carried out always adds a row.
\<close>

definition insert_thread :: "string \<Rightarrow> string \<Rightarrow> string \<Rightarrow> world \<Rightarrow> key option \<times> world" where
  "insert_thread n y ttl w =
     (case serve w of (ok, w1) \<Rightarrow>
        if ok then
          (Some (next_key w1),
           logged (Insert_thread n y ttl) True
             (w1\<lparr>threads := threads w1 @
                    [\<lparr>t_id = next_key w1, t_name = n, t_youtube_id = y,
                      t_youtube_title = ttl, t_avatar_path = None\<rparr>],
                  next_key := Suc (next_key w1)\<rparr>))
        else (None, logged (Insert_thread n y ttl) False w1))"

definition delete_thread :: "key \<Rightarrow> world \<Rightarrow> bool \<times> world" where
  "delete_thread i w =
     (case serve w of (ok, w1) \<Rightarrow>
        (ok, logged (Delete_thread i) ok
               (if ok then w1\<lparr>threads := filter (\<lambda>t. t_id t \<noteq> i) (threads w1)\<rparr> else w1)))"

subsection \<open>The bucket\<close>

text \<open>\<^verbatim>\<open>upsert: false\<close>: an upload to a path that already holds an object fails.\<close>

definition upload :: "object_path \<Rightarrow> world \<Rightarrow> bool \<times> world" where
  "upload p w =
     (case serve w of (ok, w1) \<Rightarrow>
        if ok \<and> p \<notin> set (storage w1)
        then (True, logged (Upload p) True (w1\<lparr>storage := p # storage w1\<rparr>))
        else (False, logged (Upload p) False w1))"

subsection \<open>The tables \<^verbatim>\<open>tags\<close> and \<^verbatim>\<open>thread_tags\<close>\<close>

definition select_tag :: "string \<Rightarrow> world \<Rightarrow> key option \<times> world" where
  "select_tag n w =
     (case serve w of (ok, w1) \<Rightarrow>
        ((if ok then map_option tag_id (single (filter (\<lambda>g. tag_name g = n) (tags w1))) else None),
         logged (Select_tag n) ok w1))"

text \<open>
  Modelled from the spec: the unique constraint on the name of a tag ("globally unique by
  name", "relying on a unique constraint"); the schema of the store is not part of the
  repository. An insert of a name that is present fails.
\<close>

definition insert_tag :: "string \<Rightarrow> world \<Rightarrow> key option \<times> world" where
  "insert_tag n w =
     (case serve w of (ok, w1) \<Rightarrow>
        if ok \<and> n \<notin> tag_name ` set (tags w1) then
          (Some (next_key w1),
           logged (Insert_tag n) True
             (w1\<lparr>tags := tags w1 @ [\<lparr>tag_id = next_key w1, tag_name = n\<rparr>],
                  next_key := Suc (next_key w1)\<rparr>))
        else (None, logged (Insert_tag n) False w1))"

text \<open>
  \<^verbatim>\<open>select("tag_id, tags(name)")\<close>: one entry for each association of the thread, with
  the name of the joined tag, or nothing where no tag has that key.
\<close>

definition tagNameOf :: "world \<Rightarrow> key \<Rightarrow> string option" where
  "tagNameOf w g = map_option tag_name (find (\<lambda>r. tag_id r = g) (tags w))"

definition joined_names :: "world \<Rightarrow> key \<Rightarrow> string option list" where
  "joined_names w i = map (\<lambda>(t, g). tagNameOf w g) (filter (\<lambda>(t, g). t = i) (thread_tags w))"

definition select_thread_tags :: "key \<Rightarrow> world \<Rightarrow> string option list option \<times> world" where
  "select_thread_tags i w =
     (case serve w of (ok, w1) \<Rightarrow>
        ((if ok then Some (joined_names w1 i) else None), logged (Select_thread_tags i) ok w1))"

definition delete_thread_tags :: "key \<Rightarrow> world \<Rightarrow> bool \<times> world" where
  "delete_thread_tags i w =
     (case serve w of (ok, w1) \<Rightarrow>
        (ok, logged (Delete_thread_tags i) ok
               (if ok then w1\<lparr>thread_tags := filter (\<lambda>(t, g). t \<noteq> i) (thread_tags w1)\<rparr>
                else w1)))"

definition insert_thread_tags :: "key \<Rightarrow> key list \<Rightarrow> world \<Rightarrow> bool \<times> world" where
  "insert_thread_tags i gs w =
     (case serve w of (ok, w1) \<Rightarrow>
        (ok, logged (Insert_thread_tags i gs) ok
               (if ok then w1\<lparr>thread_tags := thread_tags w1 @ map (\<lambda>g. (i, g)) gs\<rparr> else w1)))"

subsection \<open>The YouTube Data API, the thumbnail host, the clock and the data directory\<close>

datatype yt_query = By_id string | For_handle string

record channel =
  ch_id :: string
  ch_title :: string
  thumb_high :: "string option"
  thumb_medium :: "string option"
  thumb_default :: "string option"

text \<open>
  The outcome of \<^verbatim>\<open>fetch(url)\<close> followed by \<^verbatim>\<open>response.json()\<close>: an exception, a response
  that is not \<^verbatim>\<open>ok\<close>, or the \<^verbatim>\<open>items\<close> of the answer (none when the field is missing).
\<close>

datatype yt_reply = Fetch_threw | Http_error | Http_ok "channel list"

record member =
  name :: string
  youtube_id :: string
  options :: "string list option"

record metadata =
  job :: string
  group :: string

record MembersJson =
  metadata :: metadata
  members :: "member option list"

record env =
  youtube :: "yt_query \<Rightarrow> yt_reply"
  image :: "string \<Rightarrow> string option"
  now :: nat
  jobDirectories :: "string list"
  groupDirectories :: "string \<Rightarrow> string list"
  membersJsonFile :: "string \<Rightarrow> string \<Rightarrow> MembersJson option"

section \<open>The script\<close>

subsection \<open>\<^verbatim>\<open>getChannelInfo\<close> and \<^verbatim>\<open>downloadImage\<close>\<close>

record channel_info =
  channelId :: string
  title :: string
  thumbnailUrl :: string

text \<open>\<^verbatim>\<open>a || b || c\<close> on optional strings: the first one that is present and not empty.\<close>

fun first_truthy :: "string option list \<Rightarrow> string option" where
  "first_truthy [] = None"
| "first_truthy (None # xs) = first_truthy xs"
| "first_truthy (Some s # xs) = (if s \<noteq> [] then Some s else first_truthy xs)"

text \<open>The address queried: by identifier for \<^verbatim>\<open>UC...\<close>, by handle for \<^verbatim>\<open>@...\<close>, none otherwise.\<close>

definition channelQuery :: "string \<Rightarrow> yt_query option" where
  "channelQuery youtubeId =
     (if take 2 youtubeId = ''UC'' then Some (By_id youtubeId)
      else if take 1 youtubeId = ''@'' then Some (For_handle (drop 1 youtubeId))
      else None)"

definition getChannelInfo :: "env \<Rightarrow> string \<Rightarrow> channel_info option" where
  "getChannelInfo e youtubeId =
     (case channelQuery youtubeId of
        None \<Rightarrow> None
      | Some q \<Rightarrow>
          (case youtube e q of
             Fetch_threw \<Rightarrow> None
           | Http_error \<Rightarrow> None
           | Http_ok [] \<Rightarrow> None
           | Http_ok (c # _) \<Rightarrow>
               (case first_truthy [thumb_high c, thumb_medium c, thumb_default c] of
                  None \<Rightarrow> None
                | Some u \<Rightarrow> Some \<lparr>channelId = ch_id c, title = ch_title c, thumbnailUrl = u\<rparr>)))"

definition downloadImage :: "env \<Rightarrow> string \<Rightarrow> string option" where
  "downloadImage e url = image e url"

subsection \<open>\<^verbatim>\<open>getOrCreateTag\<close> and \<^verbatim>\<open>associateTagsWithThread\<close>\<close>

definition getOrCreateTag :: "string \<Rightarrow> world \<Rightarrow> key option \<times> world" where
  "getOrCreateTag tagName w =
     (case select_tag tagName w of
        (Some existingTag, w1) \<Rightarrow> (Some existingTag, w1)
      | (None, w1) \<Rightarrow> insert_tag tagName w1)"

text \<open>The loop of \<^verbatim>\<open>associateTagsWithThread\<close> that collects the keys, leaving at the first failure.\<close>

fun tagIds :: "string list \<Rightarrow> world \<Rightarrow> key list option \<times> world" where
  "tagIds [] w = (Some [], w)"
| "tagIds (tagName # rest) w =
     (case getOrCreateTag tagName w of
        (None, w1) \<Rightarrow> (None, w1)
      | (Some tagId, w1) \<Rightarrow>
          (case tagIds rest w1 of
             (None, w2) \<Rightarrow> (None, w2)
           | (Some ids, w2) \<Rightarrow> (Some (tagId # ids), w2)))"

definition associateTagsWithThread :: "key \<Rightarrow> string list \<Rightarrow> world \<Rightarrow> bool \<times> world" where
  "associateTagsWithThread threadId tagNames w =
     (if tagNames = [] then (True, w)
      else case tagIds tagNames w of
             (None, w1) \<Rightarrow> (False, w1)
           | (Some ids, w1) \<Rightarrow> insert_thread_tags threadId ids w1)"

subsection \<open>\<^verbatim>\<open>createThread\<close>\<close>

text \<open>The tag names built from \<^verbatim>\<open>members.json\<close>, in both branches of \<^verbatim>\<open>createThread\<close>.\<close>

definition expectedTagNames :: "metadata \<Rightarrow> member \<Rightarrow> string list" where
  "expectedTagNames md m =
     (if job md \<noteq> [] then [job md] else []) @
     (if group md \<noteq> [] then [group md] else []) @
     (case options m of None \<Rightarrow> [] | Some os \<Rightarrow> os)"

text \<open>
  \<^verbatim>\<open>currentThreadTags?.map((tt) => tt.tags?.name).filter(Boolean) || []\<close>: the names that
  are present and not empty; no names at all when the read failed.
\<close>

definition currentTagNames :: "string option list option \<Rightarrow> string list" where
  "currentTagNames d =
     (case d of None \<Rightarrow> [] | Some ns \<Rightarrow> filter (\<lambda>n. n \<noteq> []) (List.map_filter (\<lambda>x. x) ns))"

definition tagsMatch :: "string list \<Rightarrow> string list \<Rightarrow> bool" where
  "tagsMatch expected current \<longleftrightarrow>
     length expected = length current \<and> list_all (\<lambda>tag. tag \<in> set current) expected"

text \<open>Step 4 of the branch for an existing thread: synchronize the tags.\<close>

definition syncTags :: "key \<Rightarrow> string list \<Rightarrow> world \<Rightarrow> bool \<times> world" where
  "syncTags threadId expected w =
     (case select_thread_tags threadId w of (d, w1) \<Rightarrow>
        if tagsMatch expected (currentTagNames d) then (True, w1)
        else (case delete_thread_tags threadId w1 of
                (False, w2) \<Rightarrow> (False, w2)
              | (True, w2) \<Rightarrow>
                  if expected \<noteq> [] then associateTagsWithThread threadId expected w2
                  else (True, w2)))"

text \<open>Steps 2 and 3 of that branch: one update call for a field that differs, none otherwise.\<close>

definition updateName :: "thread_row \<Rightarrow> member \<Rightarrow> key \<Rightarrow> world \<Rightarrow> bool \<times> world" where
  "updateName currentThread m threadId w =
     (if t_name currentThread \<noteq> name m then update_thread_name threadId (name m) w
      else (True, w))"

definition updateTitle :: "thread_row \<Rightarrow> channel_info \<Rightarrow> key \<Rightarrow> world \<Rightarrow> bool \<times> world" where
  "updateTitle currentThread ci threadId w =
     (if t_youtube_title currentThread \<noteq> title ci
      then update_thread_title threadId (title ci) w
      else (True, w))"

text \<open>
  The branch \<^verbatim>\<open>if (existingThread)\<close>. The flag \<^verbatim>\<open>needsUpdate\<close> only chooses the message
  printed before \<^verbatim>\<open>return true\<close> and is left out.
\<close>

definition updateExisting :: "member \<Rightarrow> metadata \<Rightarrow> channel_info \<Rightarrow> key \<Rightarrow> world \<Rightarrow> bool \<times> world" where
  "updateExisting m md ci threadId w =
     (case select_thread_by_id threadId w of
        (None, w1) \<Rightarrow> (False, w1)
      | (Some currentThread, w1) \<Rightarrow>
          (case updateName currentThread m threadId w1 of
             (False, w2) \<Rightarrow> (False, w2)
           | (True, w2) \<Rightarrow>
               (case updateTitle currentThread ci threadId w2 of
                  (False, w3) \<Rightarrow> (False, w3)
                | (True, w3) \<Rightarrow> syncTags threadId (expectedTagNames md m) w3)))"

text \<open>
  The rest of \<^verbatim>\<open>createThread\<close>, steps 3 to 7: download, insert, upload (with the rollback),
  avatar path, tags. The result of the rollback's delete is not looked at.
\<close>

definition createNew :: "env \<Rightarrow> member \<Rightarrow> metadata \<Rightarrow> channel_info \<Rightarrow> world \<Rightarrow> bool \<times> world" where
  "createNew e m md ci w =
     (case downloadImage e (thumbnailUrl ci) of
        None \<Rightarrow> (False, w)
      | Some imageBlob \<Rightarrow>
          (case insert_thread (name m) (channelId ci) (title ci) w of
             (None, w1) \<Rightarrow> (False, w1)
           | (Some threadId, w1) \<Rightarrow>
               (case upload (threadId, now e) w1 of
                  (False, w2) \<Rightarrow> (False, snd (delete_thread threadId w2))
                | (True, w2) \<Rightarrow>
                    (case update_avatar_path threadId (threadId, now e) w2 of
                       (False, w3) \<Rightarrow> (False, w3)
                     | (True, w3) \<Rightarrow>
                         if expectedTagNames md m \<noteq> []
                         then associateTagsWithThread threadId (expectedTagNames md m) w3
                         else (True, w3)))))"

definition createThread :: "env \<Rightarrow> member \<Rightarrow> metadata \<Rightarrow> world \<Rightarrow> bool \<times> world" where
  "createThread e m md w =
     (if youtube_id m = [] then (True, w)
      else case getChannelInfo e (youtube_id m) of
             None \<Rightarrow> (False, w)
           | Some channelInfo \<Rightarrow>
               (case select_thread_by_youtube_id (channelId channelInfo) w of
                  (Some existingThread, w1) \<Rightarrow>
                     updateExisting m md channelInfo (t_id existingThread) w1
                | (None, w1) \<Rightarrow> createNew e m md channelInfo w1))"

subsection \<open>\<^verbatim>\<open>processGroup\<close> and \<^verbatim>\<open>main\<close>\<close>

record GroupProcessResult =
  jobName :: string
  groupName :: string
  success :: nat
  skipped :: nat
  failed :: nat
  total :: nat

text \<open>
  The loop over the members. An entry that is not defined is passed over. After a
  \<^verbatim>\<open>createThread\<close> that returned true for a member with a channel, the script reads
  \<^verbatim>\<open>threads\<close> again by the \<^verbatim>\<open>youtube_id\<close> written in \<^verbatim>\<open>members.json\<close> and counts the member
  as skipped when a row comes back, as a success otherwise. The pause of 100 ms after each
  member has no part in the model.
\<close>

fun processMembers ::
  "env \<Rightarrow> metadata \<Rightarrow> member option list \<Rightarrow> GroupProcessResult \<Rightarrow> world
     \<Rightarrow> GroupProcessResult \<times> world" where
  "processMembers e md [] r w = (r, w)"
| "processMembers e md (None # ms) r w = processMembers e md ms r w"
| "processMembers e md (Some m # ms) r w =
     (case createThread e m md w of
        (False, w1) \<Rightarrow> processMembers e md ms (r\<lparr>failed := failed r + 1\<rparr>) w1
      | (True, w1) \<Rightarrow>
          if youtube_id m = [] then processMembers e md ms (r\<lparr>skipped := skipped r + 1\<rparr>) w1
          else (case select_thread_by_youtube_id (youtube_id m) w1 of
                  (Some existingThread, w2) \<Rightarrow>
                     processMembers e md ms (r\<lparr>skipped := skipped r + 1\<rparr>) w2
                | (None, w2) \<Rightarrow>
                     processMembers e md ms (r\<lparr>success := success r + 1\<rparr>) w2))"

definition processGroup :: "env \<Rightarrow> string \<Rightarrow> string \<Rightarrow> world \<Rightarrow> GroupProcessResult \<times> world" where
  "processGroup e j g w =
     (case membersJsonFile e j g of
        None \<Rightarrow> (\<lparr>jobName = j, groupName = g, success = 0, skipped = 0, failed = 0, total = 0\<rparr>, w)
      | Some membersJson \<Rightarrow>
          processMembers e (metadata membersJson) (members membersJson)
            \<lparr>jobName = j, groupName = g, success = 0, skipped = 0, failed = 0,
              total = length (members membersJson)\<rparr> w)"

fun processGroups ::
  "env \<Rightarrow> string \<Rightarrow> string list \<Rightarrow> world \<Rightarrow> GroupProcessResult list \<times> world" where
  "processGroups e j [] w = ([], w)"
| "processGroups e j (g # gs) w =
     (case processGroup e j g w of (r, w1) \<Rightarrow>
        (case processGroups e j gs w1 of (rs, w2) \<Rightarrow> (r # rs, w2)))"

fun processJobs :: "env \<Rightarrow> string list \<Rightarrow> world \<Rightarrow> GroupProcessResult list \<times> world" where
  "processJobs e [] w = ([], w)"
| "processJobs e (j # js) w =
     (case processGroups e j (groupDirectories e j) w of (rs, w1) \<Rightarrow>
        (case processJobs e js w1 of (rs', w2) \<Rightarrow> (rs @ rs', w2)))"

record Summary =
  totalSuccess :: nat
  totalSkipped :: nat
  totalFailed :: nat
  totalMembers :: nat

definition overall :: "GroupProcessResult list \<Rightarrow> Summary" where
  "overall allResults =
     \<lparr>totalSuccess = sum_list (map success allResults),
      totalSkipped = sum_list (map skipped allResults),
      totalFailed = sum_list (map failed allResults),
      totalMembers = sum_list (map total allResults)\<rparr>"

text \<open>
  \<^verbatim>\<open>main\<close> gives the exit code of the process and the overall summary it printed (none
  when there is no job directory and it returns at once). Returning normally is exit
  code 0; \<^verbatim>\<open>process.exit(1)\<close> is exit code 1.
\<close>

definition main :: "env \<Rightarrow> world \<Rightarrow> (nat \<times> Summary option) \<times> world" where
  "main e w =
     (if jobDirectories e = [] then ((0, None), w)
      else case processJobs e (jobDirectories e) w of (allResults, w1) \<Rightarrow>
             ((if totalFailed (overall allResults) > 0 then 1 else 0,
               Some (overall allResults)), w1))"

section \<open>Observing a run\<close>

text \<open>The writes among the requests sent so far, in order.\<close>

definition mutations :: "world \<Rightarrow> call list" where
  "mutations w = filter is_mutation (map fst (log w))"

text \<open>The names of the tags associated with a thread: its association set.\<close>

definition assocNames :: "world \<Rightarrow> key \<Rightarrow> string list" where
  "assocNames w i = List.map_filter (\<lambda>x. x) (joined_names w i)"

text \<open>
  Integrity of the store, as a relational store with generated keys keeps it: keys are
  unique and were handed out before \<open>next_key\<close>, tag names are unique, a channel has at most
  one thread, and an association belongs to a thread key that was handed out.
\<close>

definition wf_tags :: "world \<Rightarrow> bool" where
  "wf_tags w \<longleftrightarrow>
     distinct (map tag_id (tags w)) \<and> distinct (map tag_name (tags w)) \<and>
     list_all (\<lambda>g. tag_id g < next_key w) (tags w)"


text \<open>Requests to \<^verbatim>\<open>tags\<close> and \<^verbatim>\<open>thread_tags\<close>; requests other than an upload or a thread insert.\<close>

fun tag_call :: "call \<Rightarrow> bool" where
  "tag_call (Select_tag _) = True"
| "tag_call (Insert_tag _) = True"
| "tag_call (Select_thread_tags _) = True"
| "tag_call (Delete_thread_tags _) = True"
| "tag_call (Insert_thread_tags _ _) = True"
| "tag_call _ = False"



text \<open>A thread row after its name and title were brought to those of the record.\<close>

definition synced :: "member \<Rightarrow> channel_info \<Rightarrow> thread_row \<Rightarrow> thread_row" where
  "synced m ci t = t\<lparr>t_name := name m, t_youtube_title := title ci\<rparr>"



section \<open>Per-record outcomes\<close>

text \<open>
  The outcome of every record of a run, in order: the value \<^verbatim>\<open>createThread\<close> returned for
  it, each record starting in the world its predecessors left (the read that
  \<^verbatim>\<open>processGroup\<close> makes after a success included). This is the fold the sequencer is
  compared with; it is written from the description of the sequencer, not from its code.
\<close>

fun memberOutcomes :: "env \<Rightarrow> metadata \<Rightarrow> member option list \<Rightarrow> world \<Rightarrow> bool list \<times> world" where
  "memberOutcomes e md [] w = ([], w)"
| "memberOutcomes e md (None # ms) w = memberOutcomes e md ms w"
| "memberOutcomes e md (Some m # ms) w =
     (case createThread e m md w of (ok, w1) \<Rightarrow>
        (case memberOutcomes e md ms
                (if ok \<and> youtube_id m \<noteq> []
                 then snd (select_thread_by_youtube_id (youtube_id m) w1) else w1) of
           (os, w2) \<Rightarrow> (ok # os, w2)))"

definition groupOutcomes :: "env \<Rightarrow> string \<Rightarrow> string \<Rightarrow> world \<Rightarrow> bool list \<times> world" where
  "groupOutcomes e j g w =
     (case membersJsonFile e j g of
        None \<Rightarrow> ([], w)
      | Some mj \<Rightarrow> memberOutcomes e (metadata mj) (members mj) w)"

fun groupsOutcomes :: "env \<Rightarrow> string \<Rightarrow> string list \<Rightarrow> world \<Rightarrow> bool list \<times> world" where
  "groupsOutcomes e j [] w = ([], w)"
| "groupsOutcomes e j (g # gs) w =
     (case groupOutcomes e j g w of (os, w1) \<Rightarrow>
        (case groupsOutcomes e j gs w1 of (os', w2) \<Rightarrow> (os @ os', w2)))"

fun jobsOutcomes :: "env \<Rightarrow> string list \<Rightarrow> world \<Rightarrow> bool list \<times> world" where
  "jobsOutcomes e [] w = ([], w)"
| "jobsOutcomes e (j # js) w =
     (case groupsOutcomes e j (groupDirectories e j) w of (os, w1) \<Rightarrow>
        (case jobsOutcomes e js w1 of (os', w2) \<Rightarrow> (os @ os', w2)))"

definition definedIn :: "env \<Rightarrow> string \<Rightarrow> string \<Rightarrow> nat" where
  "definedIn e j g =
     (case membersJsonFile e j g of None \<Rightarrow> 0
      | Some mj \<Rightarrow> length (filter (\<lambda>m. m \<noteq> None) (members mj)))"


definition allDefined :: "env \<Rightarrow> string \<Rightarrow> string \<Rightarrow> bool" where
  "allDefined e j g =
     (case membersJsonFile e j g of None \<Rightarrow> True | Some mj \<Rightarrow> None \<notin> set (members mj))"

section \<open>Example inputs\<close>

definition alice_channel :: channel where
  "alice_channel = \<lparr>ch_id = ''UC0123456789abcdefghijkl'', ch_title = ''Alice Ch'',
     thumb_high = Some ''https://img.example/alice_high.jpg'', thumb_medium = None,
     thumb_default = None\<rparr>"

text \<open>The API knows one channel, by its identifier and by the handle \<^verbatim>\<open>@alice\<close>.\<close>

definition demo_youtube :: "yt_query \<Rightarrow> yt_reply" where
  "demo_youtube q =
     (if q = By_id ''UC0123456789abcdefghijkl'' \<or> q = For_handle ''alice''
      then Http_ok [alice_channel] else Http_ok [])"

definition demo_metadata :: metadata where
  "demo_metadata = \<lparr>job = ''VTuber'', group = ''Alpha''\<rparr>"

definition ghost :: member where
  "ghost = \<lparr>name = ''Ghost'', youtube_id = ''@ghost'', options = None\<rparr>"

definition alice_by_handle :: member where
  "alice_by_handle = \<lparr>name = ''Alice'', youtube_id = ''@alice'', options = Some [''2023'']\<rparr>"

definition alice_by_id :: member where
  "alice_by_id =
     \<lparr>name = ''Alice'', youtube_id = ''UC0123456789abcdefghijkl'', options = Some [''2023'']\<rparr>"

definition no_channel :: member where
  "no_channel = \<lparr>name = ''Nobody'', youtube_id = [], options = None\<rparr>"

definition demo_env :: "member option list \<Rightarrow> env" where
  "demo_env ms =
     \<lparr>youtube = demo_youtube, image = (\<lambda>url. Some ''jpeg''), now = 1700,
      jobDirectories = [''VTuber''], groupDirectories = (\<lambda>j. [''Alpha'']),
      membersJsonFile = (\<lambda>j g. Some \<lparr>metadata = demo_metadata, members = ms\<rparr>)\<rparr>"

definition empty_world :: world where
  "empty_world = \<lparr>threads = [], tags = [], thread_tags = [], storage = [], next_key = 0,
     events = [], log = []\<rparr>"

text \<open>A store that holds the thread of Alice, tagged with the given names in order.\<close>

definition alice_row :: thread_row where
  "alice_row = \<lparr>t_id = 0, t_name = ''Alice'', t_youtube_id = ''UC0123456789abcdefghijkl'',
     t_youtube_title = ''Alice Ch'', t_avatar_path = Some (0, 1600)\<rparr>"

definition alice_world :: "string list \<Rightarrow> world" where
  "alice_world ns =
     \<lparr>threads = [alice_row],
      tags = map (\<lambda>(i, n). \<lparr>tag_id = Suc i, tag_name = n\<rparr>) (enumerate 0 ns),
      thread_tags = map (\<lambda>i. (0, Suc i)) [0..<length ns],
      storage = [(0, 1600)], next_key = Suc (length ns), events = [], log = []\<rparr>"

definition alice_twice :: member where
  "alice_twice = \<lparr>name = ''Alice'', youtube_id = ''@alice'', options = Some [''2023'', ''2023'']\<rparr>"


section \<open>The sequencer\<close>

lemma processMembers_outcomes:
  "processMembers e md ms r w = (r', w') \<Longrightarrow> memberOutcomes e md ms w = (os, w'') \<Longrightarrow>
     w'' = w' \<and> failed r' = failed r + length (filter Not os) \<and>
     success r' + skipped r' = success r + skipped r + length (filter (\<lambda>b. b) os) \<and>
     total r' = total r \<and>
     length os = length (filter (\<lambda>m. m \<noteq> None) ms)"
proof (induction ms arbitrary: r w r' w' os w'')
  case Nil
  then show ?case by simp
next
  case (Cons a ms)
  show ?case
  proof (cases a)
    case None
    with Cons.prems Cons.IH [of r w r' w' os w''] show ?thesis by simp
  next
    case (Some m)
    obtain ok w1 where ct: "createThread e m md w = (ok, w1)" by (cases "createThread e m md w")
    obtain x w2 where sel: "select_thread_by_youtube_id (youtube_id m) w1 = (x, w2)"
      by (cases "select_thread_by_youtube_id (youtube_id m) w1")
    define wn where "wn = (if ok \<and> youtube_id m \<noteq> [] then w2 else w1)"
    define rn where "rn = (if \<not> ok then r\<lparr>failed := failed r + 1\<rparr>
       else if youtube_id m = [] \<or> x \<noteq> None then r\<lparr>skipped := skipped r + 1\<rparr>
       else r\<lparr>success := success r + 1\<rparr>)"
    obtain os' wz where mo: "memberOutcomes e md ms wn = (os', wz)"
      by (cases "memberOutcomes e md ms wn")
    have os': "memberOutcomes e md ms wn = (os', w'')" "os = ok # os'"
      using Cons.prems(2) Some ct sel mo
      by (cases "ok \<and> youtube_id m \<noteq> []"; simp add: wn_def)+
    have step: "processMembers e md ms rn wn = (r', w')"
      using Cons.prems(1) Some ct sel
      by (cases ok; cases x; cases "youtube_id m = []") (simp_all add: rn_def wn_def)
    from Cons.IH [OF step os'(1)]
    have ih: "w'' = w'" "failed r' = failed rn + length (filter Not os')"
      "success r' + skipped r' = success rn + skipped rn + length (filter (\<lambda>b. b) os')"
      "total r' = total rn" "length os' = length (filter (\<lambda>m. m \<noteq> None) ms)"
      by simp_all
    show ?thesis using ih os'(2) Some by (simp add: rn_def)
  qed
qed


lemma processGroup_outcomes:
  assumes "processGroup e j g w = (r, w')" and "groupOutcomes e j g w = (os, w'')"
  shows "w'' = w' \<and> failed r = length (filter Not os) \<and>
     success r + skipped r = length (filter (\<lambda>b. b) os) \<and>
     length os = definedIn e j g \<and>
     (allDefined e j g \<longrightarrow> success r + skipped r + failed r = total r)"
proof (cases "membersJsonFile e j g")
  case None
  with assms show ?thesis
    by (auto simp: processGroup_def groupOutcomes_def definedIn_def allDefined_def)
next
  case (Some mj)
  have *: "length (filter (\<lambda>m. m \<noteq> None) xs) = length xs" if "None \<notin> set xs"
    for xs :: "member option list"
    using that by (induction xs) (auto simp: neq_commute)
  from assms Some
  have "processMembers e (metadata mj) (members mj)
          \<lparr>jobName = j, groupName = g, success = 0, skipped = 0, failed = 0,
            total = length (members mj)\<rparr> w = (r, w')"
    and "memberOutcomes e (metadata mj) (members mj) w = (os, w'')"
    by (simp_all add: processGroup_def groupOutcomes_def)
  from processMembers_outcomes [OF this] Some * [of "members mj"]
    sum_length_filter_compl [of "\<lambda>b. b" os]
  show ?thesis
    by (simp add: definedIn_def allDefined_def)
qed

lemma processGroups_outcomes:
  "processGroups e j gs w = (rs, w') \<Longrightarrow> groupsOutcomes e j gs w = (os, w'') \<Longrightarrow>
     w'' = w' \<and> sum_list (map failed rs) = length (filter Not os) \<and>
     sum_list (map success rs) + sum_list (map skipped rs) = length (filter (\<lambda>b. b) os) \<and>
     length os = sum_list (map (definedIn e j) gs) \<and>
     ((\<forall>g\<in>set gs. allDefined e j g) \<longrightarrow>
        (\<forall>r\<in>set rs. success r + skipped r + failed r = total r))"
proof (induction gs arbitrary: w rs w' os w'')
  case Nil
  then show ?case by simp
next
  case (Cons g gs)
  obtain r w1 where pg: "processGroup e j g w = (r, w1)" by (cases "processGroup e j g w")
  obtain o1 v1 where go: "groupOutcomes e j g w = (o1, v1)" by (cases "groupOutcomes e j g w")
  note h = processGroup_outcomes [OF pg go]
  obtain rs' w2 where pgs: "processGroups e j gs w1 = (rs', w2)"
    by (cases "processGroups e j gs w1")
  obtain o2 v2 where gos: "groupsOutcomes e j gs w1 = (o2, v2)"
    by (cases "groupsOutcomes e j gs w1")
  note ih = Cons.IH [OF pgs gos]
  have eqs: "rs = r # rs'" "w' = w2" "os = o1 @ o2" "w'' = v2"
    using Cons.prems pg go pgs gos h by simp_all
  show ?case using h ih eqs by auto
qed

lemma processJobs_outcomes:
  "processJobs e js w = (rs, w') \<Longrightarrow> jobsOutcomes e js w = (os, w'') \<Longrightarrow>
     w'' = w' \<and> sum_list (map failed rs) = length (filter Not os) \<and>
     sum_list (map success rs) + sum_list (map skipped rs) = length (filter (\<lambda>b. b) os) \<and>
     length os = sum_list (map (\<lambda>j. sum_list (map (definedIn e j) (groupDirectories e j))) js) \<and>
     ((\<forall>j\<in>set js. \<forall>g\<in>set (groupDirectories e j). allDefined e j g) \<longrightarrow>
        (\<forall>r\<in>set rs. success r + skipped r + failed r = total r))"
proof (induction js arbitrary: w rs w' os w'')
  case Nil
  then show ?case by simp
next
  case (Cons j js)
  obtain r1 w1 where pg: "processGroups e j (groupDirectories e j) w = (r1, w1)"
    by (cases "processGroups e j (groupDirectories e j) w")
  obtain o1 v1 where go: "groupsOutcomes e j (groupDirectories e j) w = (o1, v1)"
    by (cases "groupsOutcomes e j (groupDirectories e j) w")
  note h = processGroups_outcomes [OF pg go]
  obtain rs' w2 where pgs: "processJobs e js w1 = (rs', w2)"
    by (cases "processJobs e js w1")
  obtain o2 v2 where gos: "jobsOutcomes e js w1 = (o2, v2)"
    by (cases "jobsOutcomes e js w1")
  note ih = Cons.IH [OF pgs gos]
  have eqs: "rs = r1 @ rs'" "w' = w2" "os = o1 @ o2" "w'' = v2"
    using Cons.prems pg go pgs gos h by simp_all
  show ?case using h ih eqs by auto
qed

lemma sum_list_partition:
  "\<forall>r\<in>set rs. success r + skipped r + failed r = total r \<Longrightarrow>
     sum_list (map success rs) + sum_list (map skipped rs) + sum_list (map failed rs)
       = sum_list (map total rs)"
  by (induction rs) auto




text \<open>
  C10. The counters partition the batch: when every entry of every readable members file is
  defined, each group summary of the run has success + skipped + failed = total, and so has
  the overall summary that \<^verbatim>\<open>main\<close> obtains by summing the groups.
\<close>

theorem outcome_counters_partition:
  assumes "\<forall>j\<in>set (jobDirectories e). \<forall>g\<in>set (groupDirectories e j). allDefined e j g"
  shows "(\<forall>r\<in>set (fst (processJobs e (jobDirectories e) w)).
            success r + skipped r + failed r = total r)
       \<and> (case snd (fst (main e w)) of None \<Rightarrow> True
          | Some s \<Rightarrow> totalSuccess s + totalSkipped s + totalFailed s = totalMembers s)"
proof -
  obtain rs w' where pj: "processJobs e (jobDirectories e) w = (rs, w')"
    by (cases "processJobs e (jobDirectories e) w")
  obtain os w'' where jo: "jobsOutcomes e (jobDirectories e) w = (os, w'')"
    by (cases "jobsOutcomes e (jobDirectories e) w")
  from processJobs_outcomes [OF pj jo] assms
  have part: "\<forall>r\<in>set rs. success r + skipped r + failed r = total r" by blast
  from sum_list_partition [OF part] part pj show ?thesis
    by (simp add: main_def overall_def)
qed


theorem outcome_counters_partition_witness:
  "list_all (\<lambda>j. list_all (allDefined (demo_env [Some ghost, Some alice_by_id, Some no_channel]) j)
                   (groupDirectories (demo_env [Some ghost, Some alice_by_id, Some no_channel]) j))
            (jobDirectories (demo_env [Some ghost, Some alice_by_id, Some no_channel]))
   \<and> map_option (\<lambda>s. (totalSuccess s + totalSkipped s + totalFailed s, totalMembers s))
        (snd (fst (main (demo_env [Some ghost, Some alice_by_id, Some no_channel]) empty_world)))
       = Some (3, 3)"
proof -
  let ?e = "demo_env [Some ghost, Some alice_by_id, Some no_channel]"
  have h: "list_all (\<lambda>j. list_all (allDefined ?e j) (groupDirectories ?e j)) (jobDirectories ?e)"
    by code_simp
  then have h': "\<forall>j\<in>set (jobDirectories ?e). \<forall>g\<in>set (groupDirectories ?e j). allDefined ?e j g"
    by (simp add: list_all_iff)
  have t: "map_option totalMembers (snd (fst (main ?e empty_world))) = Some 3"
    by code_simp
  from outcome_counters_partition [OF h', of empty_world] t
  have "map_option (\<lambda>s. (totalSuccess s + totalSkipped s + totalFailed s, totalMembers s))
          (snd (fst (main ?e empty_world))) = Some (3, 3)"
    by (cases "snd (fst (main ?e empty_world))") auto
  with h show ?thesis by simp
qed

section \<open>What each request leaves in the log and in \<^verbatim>\<open>threads\<close>\<close>

lemma serve_frame [simp]:
  "log (snd (serve w)) = log w" "threads (snd (serve w)) = threads w"
  "thread_tags (snd (serve w)) = thread_tags w" "storage (snd (serve w)) = storage w"
  by (auto simp: serve_def rival_insert_def split: list.splits event.splits)

lemma serve_frame':
  "serve w = (ok, w1) \<Longrightarrow> log w1 = log w \<and> threads w1 = threads w \<and>
     thread_tags w1 = thread_tags w \<and> storage w1 = storage w"
  using serve_frame [of w] by simp

lemma logged_frame [simp]:
  "log (logged c ok w) = log w @ [(c, ok)]" "threads (logged c ok w) = threads w"
  "tags (logged c ok w) = tags w" "thread_tags (logged c ok w) = thread_tags w"
  "storage (logged c ok w) = storage w" "next_key (logged c ok w) = next_key w"
  "events (logged c ok w) = events w"
  by (simp_all add: logged_def)









lemma select_tag_log:
  "select_tag n w = (r, w') \<Longrightarrow>
     \<exists>ok. log w' = log w @ [(Select_tag n, ok)] \<and> threads w' = threads w"
  by (auto simp: select_tag_def split: prod.splits dest: serve_frame')

lemma insert_tag_log:
  "insert_tag n w = (r, w') \<Longrightarrow>
     log w' = log w @ [(Insert_tag n, r \<noteq> None)] \<and> threads w' = threads w"
  by (auto simp: insert_tag_def split: prod.splits if_splits dest: serve_frame')

lemma select_thread_tags_log:
  "select_thread_tags i w = (r, w') \<Longrightarrow>
     \<exists>ok. log w' = log w @ [(Select_thread_tags i, ok)] \<and> threads w' = threads w"
  by (auto simp: select_thread_tags_def split: prod.splits dest: serve_frame')

lemma delete_thread_tags_log:
  "delete_thread_tags i w = (r, w') \<Longrightarrow>
     log w' = log w @ [(Delete_thread_tags i, r)] \<and> threads w' = threads w"
  by (auto simp: delete_thread_tags_def split: prod.splits if_splits dest: serve_frame')

lemma insert_thread_tags_log:
  "insert_thread_tags i gs w = (r, w') \<Longrightarrow>
     log w' = log w @ [(Insert_thread_tags i gs, r)] \<and> threads w' = threads w"
  by (auto simp: insert_thread_tags_def split: prod.splits if_splits dest: serve_frame')

lemma getOrCreateTag_log:
  "getOrCreateTag n w = (r, w') \<Longrightarrow>
     \<exists>l. log w' = log w @ l \<and> list_all (\<lambda>c. tag_call (fst c)) l \<and> threads w' = threads w"
  by (fastforce simp: getOrCreateTag_def split: prod.splits option.splits
        dest!: select_tag_log insert_tag_log)

lemma tagIds_log:
  "tagIds ns w = (r, w') \<Longrightarrow>
     \<exists>l. log w' = log w @ l \<and> list_all (\<lambda>c. tag_call (fst c)) l \<and> threads w' = threads w"
proof (induction ns arbitrary: w r w')
  case Nil
  then show ?case by simp
next
  case (Cons n ns)
  obtain r1 w1 where g: "getOrCreateTag n w = (r1, w1)" by (cases "getOrCreateTag n w")
  from getOrCreateTag_log [OF g] obtain l1 where
    l1: "log w1 = log w @ l1" "list_all (\<lambda>c. tag_call (fst c)) l1" "threads w1 = threads w" by blast
  show ?case
  proof (cases r1)
    case None
    with g Cons.prems l1 show ?thesis by auto
  next
    case (Some k)
    obtain r2 w2 where t: "tagIds ns w1 = (r2, w2)" by (cases "tagIds ns w1")
    from Cons.IH [OF t] obtain l2 where
      l2: "log w2 = log w1 @ l2" "list_all (\<lambda>c. tag_call (fst c)) l2" "threads w2 = threads w1" by blast
    have "w' = w2" using Cons.prems g Some t by (auto split: option.splits)
    with l1 l2 show ?thesis by (intro exI [of _ "l1 @ l2"]) simp
  qed
qed

lemma associateTagsWithThread_log:
  "associateTagsWithThread i ns w = (r, w') \<Longrightarrow>
     \<exists>l. log w' = log w @ l \<and> list_all (\<lambda>c. tag_call (fst c)) l \<and> threads w' = threads w"
proof (cases "ns = []")
  case True
  assume "associateTagsWithThread i ns w = (r, w')"
  with True show ?thesis by (simp add: associateTagsWithThread_def)
next
  case False
  assume a: "associateTagsWithThread i ns w = (r, w')"
  obtain r1 w1 where t: "tagIds ns w = (r1, w1)" by (cases "tagIds ns w")
  from tagIds_log [OF t] obtain l1 where
    l1: "log w1 = log w @ l1" "list_all (\<lambda>c. tag_call (fst c)) l1" "threads w1 = threads w" by blast
  show ?thesis
  proof (cases r1)
    case None
    with a t False l1 show ?thesis by (auto simp: associateTagsWithThread_def)
  next
    case (Some ids)
    with a t False have "insert_thread_tags i ids w1 = (r, w')"
      by (simp add: associateTagsWithThread_def)
    from insert_thread_tags_log [OF this] l1 show ?thesis
      by (intro exI [of _ "l1 @ [(Insert_thread_tags i ids, r)]"]) simp
  qed
qed














section \<open>The probe and the insert\<close>





section \<open>The rollback after a failed upload\<close>





section \<open>The test that skips the tag writes\<close>

lemma tagsMatch_sets:
  assumes "distinct ex" and "distinct cur"
  shows "tagsMatch ex cur \<longleftrightarrow> set ex = set cur"
proof
  assume "tagsMatch ex cur"
  then have len: "length ex = length cur" and sub: "set ex \<subseteq> set cur"
    by (auto simp: tagsMatch_def list_all_iff)
  from assms len have "card (set ex) = card (set cur)" by (simp add: distinct_card)
  with sub show "set ex = set cur" by (simp add: card_subset_eq)
next
  assume eq: "set ex = set cur"
  then have "card (set ex) = card (set cur)" by simp
  with assms have "length ex = length cur" by (simp add: distinct_card)
  with eq show "tagsMatch ex cur" by (simp add: tagsMatch_def list_all_iff)
qed


text \<open>
  C5, as the code has it. The step that synchronizes the tags writes nothing exactly when
  the desired names and the current names (those that are present and not empty) are
  equally many and every desired name is among the current ones. The order plays no part.
  When neither collection has a duplicate, this is equality of the two as sets.
\<close>

theorem tag_noop_test:
  assumes "select_thread_tags i w = (d, w1)" and "syncTags i ex w = (r, w')"
  shows "(mutations w' = mutations w \<longleftrightarrow>
            length ex = length (currentTagNames d) \<and> set ex \<subseteq> set (currentTagNames d))
       \<and> (distinct ex \<and> distinct (currentTagNames d) \<longrightarrow>
            (mutations w' = mutations w \<longleftrightarrow> set ex = set (currentTagNames d)))"
proof -
  from select_thread_tags_log [OF assms(1)] obtain ok where
    l1: "log w1 = log w @ [(Select_thread_tags i, ok)]" by blast
  have main: "mutations w' = mutations w \<longleftrightarrow> tagsMatch ex (currentTagNames d)"
  proof (cases "tagsMatch ex (currentTagNames d)")
    case True
    with assms have "w' = w1" by (simp add: syncTags_def)
    with l1 True show ?thesis by (simp add: mutations_def)
  next
    case False
    obtain r2 w2 where dl: "delete_thread_tags i w1 = (r2, w2)"
      by (cases "delete_thread_tags i w1")
    from delete_thread_tags_log [OF dl]
    have l2: "log w2 = log w1 @ [(Delete_thread_tags i, r2)]" by simp
    have "\<exists>l. log w' = log w2 @ l"
    proof (cases "r2 \<and> ex \<noteq> []")
      case True
      with assms False dl have "associateTagsWithThread i ex w2 = (r, w')"
        by (simp add: syncTags_def)
      from associateTagsWithThread_log [OF this] show ?thesis by blast
    next
      case nt: False
      with assms False dl have "w' = w2"
        by (cases r2) (auto simp: syncTags_def)
      then show ?thesis by simp
    qed
    then obtain l where "log w' = log w2 @ l" ..
    with l1 l2 have "mutations w' = mutations w @ Delete_thread_tags i # filter is_mutation (map fst l)"
      by (simp add: mutations_def)
    with False show ?thesis by simp
  qed
  have tm: "tagsMatch ex (currentTagNames d) \<longleftrightarrow>
      length ex = length (currentTagNames d) \<and> set ex \<subseteq> set (currentTagNames d)"
    by (auto simp: tagsMatch_def list_all_iff)
  from main tm tagsMatch_sets [of ex "currentTagNames d"] show ?thesis by blast
qed



theorem tag_noop_test_witness:
  "distinct (expectedTagNames demo_metadata alice_by_handle)
   \<and> distinct (currentTagNames (fst (select_thread_tags 0
         (alice_world [''2023'', ''Extra'', ''Alpha'', ''VTuber'']))))
   \<and> set (expectedTagNames demo_metadata alice_by_handle)
       \<noteq> set (currentTagNames (fst (select_thread_tags 0
             (alice_world [''2023'', ''Extra'', ''Alpha'', ''VTuber'']))))
   \<and> mutations (snd (syncTags 0 (expectedTagNames demo_metadata alice_by_handle)
         (alice_world [''2023'', ''Extra'', ''Alpha'', ''VTuber''])))
       \<noteq> mutations (alice_world [''2023'', ''Extra'', ''Alpha'', ''VTuber''])"
proof -
  let ?w = "alice_world [''2023'', ''Extra'', ''Alpha'', ''VTuber'']"
  let ?ex = "expectedTagNames demo_metadata alice_by_handle"
  let ?sel = "select_thread_tags 0 ?w"
  let ?run = "syncTags 0 ?ex ?w"
  have h1: "distinct ?ex" by code_simp
  have h2: "distinct (currentTagNames (fst ?sel))" by code_simp
  have h3: "set ?ex \<noteq> set (currentTagNames (fst ?sel))" by code_simp
  have sel: "?sel = (fst ?sel, snd ?sel)" and run: "?run = (fst ?run, snd ?run)" by simp_all
  from tag_noop_test [OF sel run] h1 h2 h3 show ?thesis by blast
qed

text \<open>
  The claim as stated fails in both directions. With the desired names VTuber, Alpha,
  2023, 2023 and the current names VTuber, Alpha, 2023, Extra the two differ as sets and
  nothing is written; with the same desired names and the current names VTuber, Alpha,
  2023 the two are equal as sets and the associations are rebuilt.
\<close>

theorem tag_noop_test_is_not_set_equality:
  "set (expectedTagNames demo_metadata alice_twice)
     \<noteq> set (currentTagNames (Some (joined_names (alice_world [''VTuber'', ''Alpha'', ''2023'', ''Extra'']) 0)))
   \<and> mutations (snd (createThread (demo_env []) alice_twice demo_metadata
        (alice_world [''VTuber'', ''Alpha'', ''2023'', ''Extra'']))) = []
   \<and> set (expectedTagNames demo_metadata alice_twice)
     = set (currentTagNames (Some (joined_names (alice_world [''VTuber'', ''Alpha'', ''2023'']) 0)))
   \<and> mutations (snd (createThread (demo_env []) alice_twice demo_metadata
        (alice_world [''VTuber'', ''Alpha'', ''2023''])))
       = [Delete_thread_tags 0, Insert_thread_tags 0 [1, 2, 3, 3]]"
  by code_simp

section \<open>Get-or-create of a tag\<close>

lemma single_filter_Some:
  "single (filter P xs) = Some x \<Longrightarrow> x \<in> set xs \<and> P x"
proof -
  assume a: "single (filter P xs) = Some x"
  then have "filter P xs = [x]" by (cases "filter P xs" rule: single.cases) auto
  then have "x \<in> set (filter P xs)" by simp
  then show ?thesis by simp
qed

lemma select_tag_result:
  assumes "select_tag n w = (s, w1)"
  shows "(\<exists>ok. log w1 = log w @ [(Select_tag n, ok)]) \<and>
         (\<forall>k. s = Some k \<longrightarrow> (k, n) \<in> set (map (\<lambda>g. (tag_id g, tag_name g)) (tags w1)))"
proof -
  obtain ok v where sv: "serve w = (ok, v)" by (cases "serve w")
  with assms have w1: "w1 = logged (Select_tag n) ok v"
    and s: "s = (if ok then map_option tag_id (single (filter (\<lambda>g. tag_name g = n) (tags v))) else None)"
    by (simp_all add: select_tag_def)
  have "(k, n) \<in> set (map (\<lambda>g. (tag_id g, tag_name g)) (tags w1))" if "s = Some k" for k
  proof -
    from that s obtain g where "single (filter (\<lambda>g. tag_name g = n) (tags v)) = Some g" "tag_id g = k"
      by (auto split: if_splits)
    with single_filter_Some [of "\<lambda>g. tag_name g = n" "tags v" g] w1 show ?thesis by force
  qed
  moreover from serve_frame' [OF sv] w1 have "log w1 = log w @ [(Select_tag n, ok)]" by simp
  ultimately show ?thesis by blast
qed

lemma insert_tag_result:
  assumes "insert_tag n w = (r, w')"
  shows "log w' = log w @ [(Insert_tag n, r \<noteq> None)] \<and>
         (\<forall>k. r = Some k \<longrightarrow> (k, n) \<in> set (map (\<lambda>g. (tag_id g, tag_name g)) (tags w')))"
  using assms insert_tag_log [OF assms]
  by (auto simp: insert_tag_def split: prod.splits if_splits)

lemma race_lost:
  assumes "n \<notin> tag_name ` set (tags w)" and "take 2 (events w) = [Proceed, Rival_tag n]"
  shows "fst (getOrCreateTag n w) = None \<and> n \<in> tag_name ` set (tags (snd (getOrCreateTag n w)))"
proof -
  from assms(2) obtain es where es: "events w = Proceed # Rival_tag n # es"
    by (cases "events w"; cases "tl (events w)") auto
  have f: "filter (\<lambda>g. tag_name g = n) (tags w) = []"
    using assms(1) by (auto simp: filter_empty_conv)
  have s: "select_tag n w = (None, logged (Select_tag n) True (w\<lparr>events := Rival_tag n # es\<rparr>))"
    using es f by (simp add: select_tag_def serve_def)
  show ?thesis
    using assms(1)
    by (simp add: getOrCreateTag_def s insert_tag_def serve_def rival_insert_def logged_def)
qed


text \<open>
  C9, as the code has it. When \<^verbatim>\<open>getOrCreateTag\<close> returns a key, \<^verbatim>\<open>tags\<close> holds a row with
  that key and the name asked for. It returns no key exactly when its last request is an
  insert that failed; in particular, when the select finds no row and another client
  commits the name before the insert is carried out, it returns no key although the row is
  there: the script does not read the row again.
\<close>

theorem getOrCreateTag_key_or_error:
  assumes "getOrCreateTag n w = (r, w')"
  shows "(\<forall>k. r = Some k \<longrightarrow> (k, n) \<in> set (map (\<lambda>g. (tag_id g, tag_name g)) (tags w')))
       \<and> (r = None \<longleftrightarrow> last (log w') = (Insert_tag n, False))
       \<and> (n \<notin> tag_name ` set (tags w) \<and> take 2 (events w) = [Proceed, Rival_tag n] \<longrightarrow>
            r = None \<and> n \<in> tag_name ` set (tags w'))"
proof -
  obtain s w1 where s: "select_tag n w = (s, w1)" by (cases "select_tag n w")
  note sr = select_tag_result [OF s]
  have race: "n \<notin> tag_name ` set (tags w) \<and> take 2 (events w) = [Proceed, Rival_tag n] \<longrightarrow>
            r = None \<and> n \<in> tag_name ` set (tags w')"
    using race_lost [of n w] assms by simp
  show ?thesis
  proof (cases s)
    case None
    with assms s have i: "insert_tag n w1 = (r, w')" by (simp add: getOrCreateTag_def)
    from insert_tag_result [OF i] race show ?thesis by auto
  next
    case (Some k)
    with assms s have "r = Some k" "w' = w1" by (simp_all add: getOrCreateTag_def)
    with sr Some race show ?thesis by auto
  qed
qed


theorem getOrCreateTag_key_or_error_witness:
  "fst (getOrCreateTag ''VTuber'' (alice_world [''VTuber''])) = Some 1
   \<and> (1, ''VTuber'') \<in> set (map (\<lambda>g. (tag_id g, tag_name g))
        (tags (snd (getOrCreateTag ''VTuber'' (alice_world [''VTuber''])))))
   \<and> ''Alpha'' \<notin> tag_name ` set (tags (alice_world [''VTuber'']))
   \<and> fst (getOrCreateTag ''Alpha''
        ((alice_world [''VTuber''])\<lparr>events := [Proceed, Rival_tag ''Alpha'']\<rparr>)) = None
   \<and> ''Alpha'' \<in> tag_name ` set (tags (snd (getOrCreateTag ''Alpha''
        ((alice_world [''VTuber''])\<lparr>events := [Proceed, Rival_tag ''Alpha'']\<rparr>))))"
proof -
  let ?w = "alice_world [''VTuber'']"
  let ?v = "?w\<lparr>events := [Proceed, Rival_tag ''Alpha'']\<rparr>"
  let ?a = "getOrCreateTag ''VTuber'' ?w"
  let ?b = "getOrCreateTag ''Alpha'' ?v"
  have r: "fst ?a = Some 1" by code_simp
  have a: "?a = (fst ?a, snd ?a)" and b: "?b = (fst ?b, snd ?b)" by simp_all
  have h1: "''Alpha'' \<notin> tag_name ` set (tags ?v)" by code_simp
  have h1': "''Alpha'' \<notin> tag_name ` set (tags ?w)" by code_simp
  have h2: "take 2 (events ?v) = [Proceed, Rival_tag ''Alpha'']" by code_simp
  from getOrCreateTag_key_or_error [OF a] r
  have "(1, ''VTuber'') \<in> set (map (\<lambda>g. (tag_id g, tag_name g)) (tags (snd ?a)))" by blast
  moreover from getOrCreateTag_key_or_error [OF b] h1 h2
  have "fst ?b = None \<and> ''Alpha'' \<in> tag_name ` set (tags (snd ?b))" by blast
  ultimately show ?thesis using r h1' by blast
qed

text \<open>
  The claim as stated fails: the select finds no row, another client commits the tag, the
  insert fails on the name that is now present, and the result is an error and not the key
  0 of the row.
\<close>

theorem race_reports_error:
  "fst (getOrCreateTag ''VTuber'' (empty_world\<lparr>events := [Proceed, Rival_tag ''VTuber'']\<rparr>)) = None
   \<and> log (snd (getOrCreateTag ''VTuber'' (empty_world\<lparr>events := [Proceed, Rival_tag ''VTuber'']\<rparr>)))
       = [(Select_tag ''VTuber'', True), (Insert_tag ''VTuber'', False)]
   \<and> map (\<lambda>g. (tag_id g, tag_name g))
        (tags (snd (getOrCreateTag ''VTuber'' (empty_world\<lparr>events := [Proceed, Rival_tag ''VTuber'']\<rparr>))))
       = [(0, ''VTuber'')]"
  by code_simp

section \<open>A lookup that fails\<close>

text \<open>
  C7. A lookup that fails is not fatal for the record. The store holds the thread of the
  channel and its three tags. When the probe is answered with an error, \<^verbatim>\<open>createThread\<close> takes
  the thread for absent: it inserts a second thread and uploads an avatar for it, returns
  true, and \<^verbatim>\<open>processGroup\<close> counts no failure. When the read of the current tags is
  answered with an error, the current tags are taken to be none: associations that already
  match are deleted and inserted again, and the record returns true.
\<close>

theorem failed_lookup_is_not_fatal:
  "fst (createThread (demo_env []) alice_by_handle demo_metadata
         ((alice_world [''VTuber'', ''Alpha'', ''2023''])\<lparr>events := [Fault]\<rparr>))
   \<and> log (snd (createThread (demo_env []) alice_by_handle demo_metadata
         ((alice_world [''VTuber'', ''Alpha'', ''2023''])\<lparr>events := [Fault]\<rparr>)))
       = [(Select_thread_by_youtube_id ''UC0123456789abcdefghijkl'', False),
          (Insert_thread ''Alice'' ''UC0123456789abcdefghijkl'' ''Alice Ch'', True),
          (Upload (4, 1700), True), (Update_avatar_path 4 (4, 1700), True),
          (Select_tag ''VTuber'', True), (Select_tag ''Alpha'', True), (Select_tag ''2023'', True),
          (Insert_thread_tags 4 [1, 2, 3], True)]
   \<and> map t_id (threads (snd (createThread (demo_env []) alice_by_handle demo_metadata
         ((alice_world [''VTuber'', ''Alpha'', ''2023''])\<lparr>events := [Fault]\<rparr>)))) = [0, 4]
   \<and> failed (fst (processGroup (demo_env [Some alice_by_handle]) ''VTuber'' ''Alpha''
         ((alice_world [''VTuber'', ''Alpha'', ''2023''])\<lparr>events := [Fault]\<rparr>))) = 0
   \<and> fst (createThread (demo_env []) alice_by_handle demo_metadata
         ((alice_world [''VTuber'', ''Alpha'', ''2023''])\<lparr>events := [Proceed, Proceed, Fault]\<rparr>))
   \<and> log (snd (createThread (demo_env []) alice_by_handle demo_metadata
         ((alice_world [''VTuber'', ''Alpha'', ''2023''])\<lparr>events := [Proceed, Proceed, Fault]\<rparr>)))
       = [(Select_thread_by_youtube_id ''UC0123456789abcdefghijkl'', True),
          (Select_thread_by_id 0, True), (Select_thread_tags 0, False),
          (Delete_thread_tags 0, True),
          (Select_tag ''VTuber'', True), (Select_tag ''Alpha'', True), (Select_tag ''2023'', True),
          (Insert_thread_tags 0 [1, 2, 3], True)]"
  by code_simp

section \<open>How a fresh creation is counted\<close>

text \<open>
  C8. A fresh creation is counted as skipped when the record gives the channel by its
  identifier. The store is empty; the record is created with one insert, one upload and
  one insert of its three associations; the read that \<^verbatim>\<open>processGroup\<close> makes afterwards by
  the identifier written in \<^verbatim>\<open>members.json\<close> finds the thread just created, and the group
  summary has success 0 and skipped 1. The same record written with the handle is counted
  as a success, because no thread has the handle as its \<^verbatim>\<open>youtube_id\<close>.
\<close>

theorem fresh_creation_counted_as_skipped:
  "threads empty_world = []
   \<and> mutations (snd (processGroup (demo_env [Some alice_by_id]) ''VTuber'' ''Alpha'' empty_world))
       = [Insert_thread ''Alice'' ''UC0123456789abcdefghijkl'' ''Alice Ch'',
          Upload (0, 1700), Update_avatar_path 0 (0, 1700),
          Insert_tag ''VTuber'', Insert_tag ''Alpha'', Insert_tag ''2023'',
          Insert_thread_tags 0 [1, 2, 3]]
   \<and> fst (processGroup (demo_env [Some alice_by_id]) ''VTuber'' ''Alpha'' empty_world)
       = \<lparr>jobName = ''VTuber'', groupName = ''Alpha'', success = 0, skipped = 1, failed = 0,
          total = 1\<rparr>
   \<and> fst (processGroup (demo_env [Some alice_by_handle]) ''VTuber'' ''Alpha'' empty_world)
       = \<lparr>jobName = ''VTuber'', groupName = ''Alpha'', success = 1, skipped = 0, failed = 0,
          total = 1\<rparr>"
  by code_simp

section \<open>Runs without store errors\<close>

lemma serve_nf: "events w = [] \<Longrightarrow> serve w = (True, w)"
  by (simp add: serve_def)

lemma find_append_hit:
  "find P xs = Some x \<Longrightarrow> find P (xs @ ys) = Some x"
  by (induction xs) (auto split: if_splits)

lemma find_append_miss:
  "find P xs = None \<Longrightarrow> find P (xs @ ys) = find P ys"
  by (induction xs) (auto split: if_splits)

lemma tagNameOf_stable:
  "tagNameOf w k = Some n \<Longrightarrow> tags w' = tags w @ new \<Longrightarrow> tagNameOf w' k = Some n"
  by (auto simp: tagNameOf_def find_append_hit)

lemma distinct_filter_single:
  "distinct (map f xs) \<Longrightarrow> x \<in> set xs \<Longrightarrow> filter (\<lambda>t. f t = f x) xs = [x]"
proof (induction xs)
  case Nil
  then show ?case by simp
next
  case (Cons a xs)
  show ?case
  proof (cases "a = x")
    case True
    from Cons.prems(1) have "f a \<notin> f ` set xs" by simp
    with True have "\<forall>t\<in>set xs. f t \<noteq> f x" by (metis imageI)
    then have "filter (\<lambda>t. f t = f x) xs = []" by (simp add: filter_empty_conv)
    with True show ?thesis by simp
  next
    case False
    with Cons.prems have x: "x \<in> set xs" and "f a \<notin> f ` set xs" by auto
    then have "f a \<noteq> f x" by (metis imageI)
    with Cons.IH x Cons.prems(1) show ?thesis by simp
  qed
qed

lemma distinct_find:
  "distinct (map f xs) \<Longrightarrow> x \<in> set xs \<Longrightarrow> find (\<lambda>t. f t = f x) xs = Some x"
proof (induction xs)
  case Nil
  then show ?case by simp
next
  case (Cons a xs)
  show ?case
  proof (cases "a = x")
    case True
    then show ?thesis by simp
  next
    case False
    with Cons.prems have x: "x \<in> set xs" and "f a \<notin> f ` set xs" by auto
    then have "f a \<noteq> f x" by (metis imageI)
    with Cons.IH x Cons.prems(1) show ?thesis by simp
  qed
qed

lemma getOrCreateTag_nf:
  assumes "events w = []" and "wf_tags w"
  obtains k w' new where "getOrCreateTag n w = (Some k, w')" "events w' = []" "wf_tags w'"
    "threads w' = threads w" "thread_tags w' = thread_tags w" "storage w' = storage w"
    "tagNameOf w' k = Some n" "tags w' = tags w @ new" "next_key w \<le> next_key w'"
proof (cases "n \<in> tag_name ` set (tags w)")
  case True
  then obtain g where g: "g \<in> set (tags w)" "tag_name g = n" by auto
  from assms(2) have dn: "distinct (map tag_name (tags w))" and di: "distinct (map tag_id (tags w))"
    by (simp_all add: wf_tags_def)
  from distinct_filter_single [OF dn g(1)] g(2)
  have f: "filter (\<lambda>t. tag_name t = n) (tags w) = [g]" by simp
  let ?w' = "logged (Select_tag n) True w"
  have r: "getOrCreateTag n w = (Some (tag_id g), ?w')"
    using assms(1) f by (simp add: getOrCreateTag_def select_tag_def serve_nf)
  have "tagNameOf ?w' (tag_id g) = Some n"
    using distinct_find [OF di g(1)] g(2) by (simp add: tagNameOf_def)
  with r assms show ?thesis
    by (intro that [of "tag_id g" ?w' "[]"]) (simp_all add: wf_tags_def)
next
  case False
  then have f: "filter (\<lambda>t. tag_name t = n) (tags w) = []"
    by (auto simp: filter_empty_conv)
  let ?v = "logged (Select_tag n) True w"
  let ?row = "\<lparr>tag_id = next_key w, tag_name = n\<rparr>"
  let ?w' = "logged (Insert_tag n) True
     (?v\<lparr>tags := tags w @ [?row], next_key := Suc (next_key w)\<rparr>)"
  have r: "getOrCreateTag n w = (Some (next_key w), ?w')"
    using assms(1) f False
    by (simp add: getOrCreateTag_def select_tag_def insert_tag_def serve_nf)
  from assms(2) have lt: "\<forall>g\<in>set (tags w). tag_id g < next_key w"
    by (simp add: wf_tags_def list_all_iff)
  then have fresh: "next_key w \<notin> tag_id ` set (tags w)" by auto
  have wf: "wf_tags ?w'"
    using assms(2) False fresh lt by (auto simp: wf_tags_def list_all_iff)
  have "find (\<lambda>r. tag_id r = next_key w) (tags w) = None"
    using lt by (auto simp: find_None_iff)
  then have "tagNameOf ?w' (next_key w) = Some n"
    by (simp add: tagNameOf_def find_append_miss)
  with r wf assms(1) show ?thesis
    by (intro that [of "next_key w" ?w' "[?row]"]) simp_all
qed

lemma tagIds_nf:
  assumes "events w = []" and "wf_tags w"
  obtains ids w' new where "tagIds ns w = (Some ids, w')" "events w' = []" "wf_tags w'"
    "threads w' = threads w" "thread_tags w' = thread_tags w" "storage w' = storage w"
    "map (tagNameOf w') ids = map Some ns" "tags w' = tags w @ new" "next_key w \<le> next_key w'"
  using assms
proof (induction ns arbitrary: w thesis)
  case Nil
  show ?case by (rule Nil(1) [of "[]" w "[]"]) (use Nil in simp_all)
next
  case (Cons n ns)
  from getOrCreateTag_nf [OF Cons.prems(2,3), of n] obtain k w1 new1 where
    g: "getOrCreateTag n w = (Some k, w1)" "events w1 = []" "wf_tags w1"
    "threads w1 = threads w" "thread_tags w1 = thread_tags w" "storage w1 = storage w"
    "tagNameOf w1 k = Some n" "tags w1 = tags w @ new1" "next_key w \<le> next_key w1" by blast
  from Cons.IH [OF _ g(2,3)] obtain ids w2 new2 where
    t: "tagIds ns w1 = (Some ids, w2)" "events w2 = []" "wf_tags w2"
    "threads w2 = threads w1" "thread_tags w2 = thread_tags w1" "storage w2 = storage w1"
    "map (tagNameOf w2) ids = map Some ns" "tags w2 = tags w1 @ new2" "next_key w1 \<le> next_key w2"
    by blast
  from tagNameOf_stable [OF g(7) t(8)] have "tagNameOf w2 k = Some n" .
  with g t show ?case
    by (intro Cons.prems(1) [of "k # ids" w2 "new1 @ new2"]) simp_all
qed

lemma tagNameOf_cong: "tags w' = tags w \<Longrightarrow> tagNameOf w' = tagNameOf w"
  by (auto simp: tagNameOf_def fun_eq_iff)

lemma joined_names_cong:
  "tags w' = tags w \<Longrightarrow> thread_tags w' = thread_tags w \<Longrightarrow> joined_names w' i = joined_names w i"
  using tagNameOf_cong [of w' w] by (simp add: joined_names_def)

lemma joined_names_logged [simp]: "joined_names (logged c b w) i = joined_names w i"
  by (rule joined_names_cong) simp_all

lemma wf_tags_cong:
  "tags w' = tags w \<Longrightarrow> next_key w \<le> next_key w' \<Longrightarrow> wf_tags w \<Longrightarrow> wf_tags w'"
  by (auto simp: wf_tags_def list_all_iff)

lemma associateTagsWithThread_nf:
  assumes "events w = []" and "wf_tags w"
  obtains ids w' new where "associateTagsWithThread i ns w = (True, w')" "events w' = []"
    "wf_tags w'" "threads w' = threads w" "thread_tags w' = thread_tags w @ map (Pair i) ids"
    "storage w' = storage w" "map (tagNameOf w') ids = map Some ns" "tags w' = tags w @ new"
    "next_key w \<le> next_key w'"
proof (cases "ns = []")
  case True
  show ?thesis by (rule that [of w "[]" "[]"]) (use True assms in \<open>simp_all add: associateTagsWithThread_def\<close>)
next
  case False
  from tagIds_nf [OF assms, of ns] obtain ids w1 new where
    t: "tagIds ns w = (Some ids, w1)" "events w1 = []" "wf_tags w1"
    "threads w1 = threads w" "thread_tags w1 = thread_tags w" "storage w1 = storage w"
    "map (tagNameOf w1) ids = map Some ns" "tags w1 = tags w @ new" "next_key w \<le> next_key w1"
    by blast
  let ?w' = "logged (Insert_thread_tags i ids) True
     (w1\<lparr>thread_tags := thread_tags w1 @ map (Pair i) ids\<rparr>)"
  have r: "associateTagsWithThread i ns w = (True, ?w')"
    using False t(1,2) by (simp add: associateTagsWithThread_def insert_thread_tags_def serve_nf)
  have tn: "tagNameOf ?w' = tagNameOf w1" by (rule tagNameOf_cong) simp
  have wf: "wf_tags ?w'" by (rule wf_tags_cong [OF _ _ t(3)]) simp_all
  show ?thesis
    by (rule that [of ?w' ids new]) (use r t tn wf in simp_all)
qed

lemma joined_names_rebuilt:
  assumes "filter (\<lambda>(t, g). t = i) (thread_tags w) = []"
    and "thread_tags w' = thread_tags w @ map (Pair i) ids"
    and "map (tagNameOf w') ids = map Some ns"
  shows "joined_names w' i = map Some ns"
proof -
  have "filter (\<lambda>(t, g). t = i) (map (Pair i) ids) = map (Pair i) ids"
    by (induction ids) auto
  with assms(1,2) have "filter (\<lambda>(t, g). t = i) (thread_tags w') = map (Pair i) ids" by simp
  then have "joined_names w' i = map (tagNameOf w') ids"
    by (simp add: joined_names_def comp_def)
  with assms(3) show ?thesis by simp
qed

lemma syncTags_match:
  assumes "events w = []" and "tagsMatch ex (currentTagNames (Some (joined_names w i)))"
  shows "syncTags i ex w = (True, logged (Select_thread_tags i) True w)"
  using assms
  by (simp add: syncTags_def select_thread_tags_def serve_nf)

lemma syncTags_rebuild:
  assumes "events w = []" and "wf_tags w"
    and "\<not> tagsMatch ex (currentTagNames (Some (joined_names w i)))"
  obtains w' where "syncTags i ex w = (True, w')" "events w' = []" "threads w' = threads w"
    "joined_names w' i = map Some ex"
proof -
  define w1 where "w1 = logged (Select_thread_tags i) True w"
  define w2 where "w2 = logged (Delete_thread_tags i) True
     (w1\<lparr>thread_tags := filter (\<lambda>(t, g). t \<noteq> i) (thread_tags w1)\<rparr>)"
  have e1: "events w1 = []" using assms(1) by (simp add: w1_def)
  have e2: "events w2 = []" using e1 by (simp add: w2_def)
  have wf2: "wf_tags w2" by (rule wf_tags_cong [OF _ _ assms(2)]) (simp_all add: w2_def w1_def)
  have thr: "threads w2 = threads w" by (simp add: w2_def w1_def)
  from associateTagsWithThread_nf [OF e2 wf2, of i ex] obtain ids w' where
    a: "associateTagsWithThread i ex w2 = (True, w')" "events w' = []"
    "threads w' = threads w2" "thread_tags w' = thread_tags w2 @ map (Pair i) ids"
    "map (tagNameOf w') ids = map Some ex" by blast
  have none: "filter (\<lambda>(t, g). t = i) (thread_tags w2) = []"
    by (auto simp: filter_empty_conv w2_def)
  have sel: "select_thread_tags i w = (Some (joined_names w i), w1)"
    using assms(1) by (simp add: select_thread_tags_def serve_nf w1_def)
  have del: "delete_thread_tags i w1 = (True, w2)"
    using e1 by (simp add: delete_thread_tags_def serve_nf w2_def)
  have "syncTags i ex w = (if ex \<noteq> [] then associateTagsWithThread i ex w2 else (True, w2))"
    using sel del assms(3) by (simp add: syncTags_def)
  also have "\<dots> = associateTagsWithThread i ex w2"
    by (simp add: associateTagsWithThread_def)
  finally have r: "syncTags i ex w = (True, w')" using a(1) by simp
  show ?thesis
    by (rule that [of w']) (use r a thr joined_names_rebuilt [OF none a(4,5)] in simp_all)
qed

lemma update_row_frame [simp]:
  "tags (update_row i f w) = tags w" "thread_tags (update_row i f w) = thread_tags w"
  "next_key (update_row i f w) = next_key w" "storage (update_row i f w) = storage w"
  "events (update_row i f w) = events w" "log (update_row i f w) = log w"
  "threads (update_row i f w) = map (\<lambda>t. if t_id t = i then f t else t) (threads w)"
  by (simp_all add: update_row_def)

lemma updateName_nf:
  assumes "events w = []" and "\<forall>t\<in>set (threads w). t_id t = i \<longrightarrow> t_name t = t_name cur"
  obtains w' where "updateName cur m i w = (True, w')" "events w' = []" "tags w' = tags w"
    "thread_tags w' = thread_tags w" "next_key w' = next_key w"
    "threads w' = map (\<lambda>t. if t_id t = i then t\<lparr>t_name := name m\<rparr> else t) (threads w)"
proof (cases "t_name cur \<noteq> name m")
  case True
  show ?thesis
    by (rule that [of "logged (Update_thread_name i (name m)) True
          (update_row i (\<lambda>t. t\<lparr>t_name := name m\<rparr>) w)"])
       (use True assms(1) in \<open>simp_all add: updateName_def update_thread_name_def serve_nf\<close>)
next
  case False
  with assms(2) have "map (\<lambda>t. if t_id t = i then t\<lparr>t_name := name m\<rparr> else t) (threads w) = threads w"
    by (intro map_idI) auto
  with False assms(1) show ?thesis
    by (intro that [of w]) (simp_all add: updateName_def)
qed

lemma updateTitle_nf:
  assumes "events w = []"
    and "\<forall>t\<in>set (threads w). t_id t = i \<longrightarrow> t_youtube_title t = t_youtube_title cur"
  obtains w' where "updateTitle cur ci i w = (True, w')" "events w' = []" "tags w' = tags w"
    "thread_tags w' = thread_tags w" "next_key w' = next_key w"
    "threads w' = map (\<lambda>t. if t_id t = i then t\<lparr>t_youtube_title := title ci\<rparr> else t) (threads w)"
proof (cases "t_youtube_title cur \<noteq> title ci")
  case True
  show ?thesis
    by (rule that [of "logged (Update_thread_title i (title ci)) True
          (update_row i (\<lambda>t. t\<lparr>t_youtube_title := title ci\<rparr>) w)"])
       (use True assms(1) in \<open>simp_all add: updateTitle_def update_thread_title_def serve_nf\<close>)
next
  case False
  with assms(2)
  have "map (\<lambda>t. if t_id t = i then t\<lparr>t_youtube_title := title ci\<rparr> else t) (threads w) = threads w"
    by (intro map_idI) auto
  with False assms(1) show ?thesis
    by (intro that [of w]) (simp_all add: updateTitle_def)
qed

lemma only_row:
  assumes "filter (\<lambda>t. t_id t = i) xs = [row]" and "t \<in> set xs" and "t_id t = i"
  shows "t = row"
proof -
  from assms(2,3) have "t \<in> set (filter (\<lambda>t. t_id t = i) xs)" by simp
  with assms(1) show ?thesis by simp
qed

lemma only_row_after_name:
  assumes "filter (\<lambda>t. t_id t = i) xs = [row]"
    and "t \<in> set (map (\<lambda>t. if t_id t = i then t\<lparr>t_name := n\<rparr> else t) xs)" and "t_id t = i"
  shows "t_youtube_title t = t_youtube_title row"
proof -
  from assms(2) obtain t0 where t0: "t0 \<in> set xs" "t = (if t_id t0 = i then t0\<lparr>t_name := n\<rparr> else t0)"
    by auto
  show ?thesis
  proof (cases "t_id t0 = i")
    case True
    from only_row [OF assms(1) t0(1) True] t0(2) True show ?thesis by simp
  next
    case False
    with t0(2) assms(3) show ?thesis by simp
  qed
qed

lemma updateExisting_nf:
  assumes "events w = []" and "wf_tags w" and "filter (\<lambda>t. t_id t = i) (threads w) = [row]"
  obtains w' where "updateExisting m md ci i w = (True, w')" "events w' = []"
    "threads w' = map (\<lambda>t. if t_id t = i then synced m ci t else t) (threads w)"
    "joined_names w' i =
       (if tagsMatch (expectedTagNames md m) (currentTagNames (Some (joined_names w i)))
        then joined_names w i else map Some (expectedTagNames md m))"
proof -
  define w1 where "w1 = logged (Select_thread_by_id i) True w"
  have sel: "select_thread_by_id i w = (Some row, w1)"
    using assms(1,3) by (simp add: select_thread_by_id_def serve_nf w1_def)
  have e1: "events w1 = []" and t1: "threads w1 = threads w" "tags w1 = tags w"
    "thread_tags w1 = thread_tags w" "next_key w1 = next_key w"
    using assms(1) by (simp_all add: w1_def)
  have n1: "\<forall>t\<in>set (threads w1). t_id t = i \<longrightarrow> t_name t = t_name row"
  proof (intro ballI impI)
    fix t assume "t \<in> set (threads w1)" "t_id t = i"
    with t1(1) have "t = row" by (intro only_row [OF assms(3)]) simp_all
    then show "t_name t = t_name row" by simp
  qed
  from updateName_nf [OF e1 n1, of m] obtain w2 where
    u2: "updateName row m i w1 = (True, w2)" "events w2 = []" "tags w2 = tags w1"
    "thread_tags w2 = thread_tags w1" "next_key w2 = next_key w1"
    "threads w2 = map (\<lambda>t. if t_id t = i then t\<lparr>t_name := name m\<rparr> else t) (threads w1)"
    by blast
  have n2: "\<forall>t\<in>set (threads w2). t_id t = i \<longrightarrow> t_youtube_title t = t_youtube_title row"
  proof (intro ballI impI)
    fix t assume "t \<in> set (threads w2)" "t_id t = i"
    with u2(6) t1(1) show "t_youtube_title t = t_youtube_title row"
      by (intro only_row_after_name [OF assms(3), of t "name m"]) simp_all
  qed
  from updateTitle_nf [OF u2(2) n2, of ci] obtain w3 where
    u3: "updateTitle row ci i w2 = (True, w3)" "events w3 = []" "tags w3 = tags w2"
    "thread_tags w3 = thread_tags w2" "next_key w3 = next_key w2"
    "threads w3 = map (\<lambda>t. if t_id t = i then t\<lparr>t_youtube_title := title ci\<rparr> else t) (threads w2)"
    by blast
  have thr3: "threads w3 = map (\<lambda>t. if t_id t = i then synced m ci t else t) (threads w)"
    unfolding u3(6) u2(6) t1(1) by (simp add: synced_def comp_def)
  have wf3: "wf_tags w3"
    by (rule wf_tags_cong [OF _ _ assms(2)]) (simp_all add: u3 u2 t1)
  have j3: "joined_names w3 i = joined_names w i"
    by (rule joined_names_cong) (simp_all add: u3 u2 t1)
  have unfold: "updateExisting m md ci i w = syncTags i (expectedTagNames md m) w3"
    using sel u2(1) u3(1) by (simp add: updateExisting_def)
  show ?thesis
  proof (cases "tagsMatch (expectedTagNames md m) (currentTagNames (Some (joined_names w i)))")
    case True
    with j3 have "tagsMatch (expectedTagNames md m) (currentTagNames (Some (joined_names w3 i)))"
      by simp
    from syncTags_match [OF u3(2) this] unfold True j3 thr3 u3(2) show ?thesis
      by (intro that [of "logged (Select_thread_tags i) True w3"]) simp_all
  next
    case False
    with j3 have "\<not> tagsMatch (expectedTagNames md m) (currentTagNames (Some (joined_names w3 i)))"
      by simp
    from syncTags_rebuild [OF u3(2) wf3 this] obtain w' where
      s: "syncTags i (expectedTagNames md m) w3 = (True, w')" "events w' = []"
      "threads w' = threads w3" "joined_names w' i = map Some (expectedTagNames md m)" by blast
    with unfold False thr3 show ?thesis
      by (intro that [of w']) simp_all
  qed
qed


section \<open>Convergence of the tags\<close>

lemma tagsMatch_distinct_sets:
  assumes "distinct ex" and "tagsMatch ex cur"
  shows "set ex = set cur"
proof -
  from assms(2) have len: "length ex = length cur" and sub: "set ex \<subseteq> set cur"
    by (auto simp: tagsMatch_def list_all_iff)
  have "card (set cur) \<le> length cur" by (rule card_length)
  also have "\<dots> = card (set ex)" using assms(1) len by (simp add: distinct_card)
  finally show ?thesis using sub by (simp add: card_seteq)
qed


lemma map_filter_Some [simp]: "List.map_filter (\<lambda>x. x) (map Some xs) = xs"
  by (induction xs) simp_all

lemma currentTagNames_assoc:
  "currentTagNames (Some (joined_names w i)) = filter (\<lambda>n. n \<noteq> []) (assocNames w i)"
  by (simp add: currentTagNames_def assocNames_def)



text \<open>
  C3, as the code has it. Take a store with unique keys and tag names, no store error, and
  a record whose thread exists. The record is reported as a success. Whenever the test of
  the tag step finds a mismatch, all associations of the thread are deleted and the full
  desired list is inserted: the associations are then exactly the desired names. Whenever
  the desired names have no duplicate and the thread has no association to a tag with an
  empty name, the final association set is the desired set, whatever the thread was
  associated with before.
\<close>

theorem tag_convergence:
  assumes "events w = []" and "wf_tags w" and "distinct (map t_id (threads w))"
    and "youtube_id m \<noteq> []" and "getChannelInfo e (youtube_id m) = Some ci"
    and "filter (\<lambda>t. t_youtube_id t = channelId ci) (threads w) = [row]"
  shows "fst (createThread e m md w)
     \<and> (\<not> tagsMatch (expectedTagNames md m) (currentTagNames (Some (joined_names w (t_id row)))) \<longrightarrow>
           assocNames (snd (createThread e m md w)) (t_id row) = expectedTagNames md m)
     \<and> (distinct (expectedTagNames md m) \<and> [] \<notin> set (assocNames w (t_id row)) \<longrightarrow>
           set (assocNames (snd (createThread e m md w)) (t_id row)) = set (expectedTagNames md m))"
proof -
  let ?ex = "expectedTagNames md m"
  let ?i = "t_id row"
  define w1 where "w1 = logged (Select_thread_by_youtube_id (channelId ci)) True w"
  have probe: "select_thread_by_youtube_id (channelId ci) w = (Some row, w1)"
    using assms(1,6) by (simp add: select_thread_by_youtube_id_def serve_nf w1_def)
  have e1: "events w1 = []" using assms(1) by (simp add: w1_def)
  have wf1: "wf_tags w1" by (rule wf_tags_cong [OF _ _ assms(2)]) (simp_all add: w1_def)
  have "row \<in> set (filter (\<lambda>t. t_youtube_id t = channelId ci) (threads w))"
    using assms(6) by simp
  then have "row \<in> set (threads w)" by simp
  from distinct_filter_single [OF assms(3) this]
  have rows: "filter (\<lambda>t. t_id t = ?i) (threads w1) = [row]" by (simp add: w1_def)
  from updateExisting_nf [OF e1 wf1 rows, of m md ci] obtain w' where
    u: "updateExisting m md ci ?i w1 = (True, w')"
    "joined_names w' ?i =
       (if tagsMatch ?ex (currentTagNames (Some (joined_names w1 ?i)))
        then joined_names w1 ?i else map Some ?ex)" by blast
  have run: "createThread e m md w = (True, w')"
    using assms(4,5) probe u(1) by (simp add: createThread_def)
  have j: "joined_names w' ?i =
       (if tagsMatch ?ex (currentTagNames (Some (joined_names w ?i)))
        then joined_names w ?i else map Some ?ex)"
    using u(2) by (simp add: w1_def)
  have rebuilt: "assocNames w' ?i = ?ex"
    if "\<not> tagsMatch ?ex (currentTagNames (Some (joined_names w ?i)))"
    using that j by (simp add: assocNames_def)
  have conv: "set (assocNames w' ?i) = set ?ex"
    if d: "distinct ?ex" and ne: "[] \<notin> set (assocNames w ?i)"
  proof (cases "tagsMatch ?ex (currentTagNames (Some (joined_names w ?i)))")
    case True
    from ne have "filter (\<lambda>n. n \<noteq> []) (assocNames w ?i) = assocNames w ?i"
      by (auto simp: filter_id_conv)
    with True have "tagsMatch ?ex (assocNames w ?i)" by (simp add: currentTagNames_assoc)
    from tagsMatch_distinct_sets [OF d this] True j show ?thesis
      by (simp add: assocNames_def)
  next
    case False
    from rebuilt [OF False] show ?thesis by simp
  qed
  from run rebuilt conv show ?thesis by simp
qed


theorem tag_convergence_witness:
  "events (alice_world [''Creators'', ''Old'', ''Extra'']) = []
   \<and> wf_tags (alice_world [''Creators'', ''Old'', ''Extra''])
   \<and> distinct (map t_id (threads (alice_world [''Creators'', ''Old'', ''Extra''])))
   \<and> filter (\<lambda>t. t_youtube_id t = ''UC0123456789abcdefghijkl'')
        (threads (alice_world [''Creators'', ''Old'', ''Extra''])) = [alice_row]
   \<and> assocNames (alice_world [''Creators'', ''Old'', ''Extra'']) 0 = [''Creators'', ''Old'', ''Extra'']
   \<and> expectedTagNames \<lparr>job = ''Creators'', group = ''Alpha''\<rparr> alice_by_handle
        = [''Creators'', ''Alpha'', ''2023'']
   \<and> fst (createThread (demo_env []) alice_by_handle \<lparr>job = ''Creators'', group = ''Alpha''\<rparr>
        (alice_world [''Creators'', ''Old'', ''Extra'']))
   \<and> set (assocNames (snd (createThread (demo_env []) alice_by_handle
        \<lparr>job = ''Creators'', group = ''Alpha''\<rparr> (alice_world [''Creators'', ''Old'', ''Extra'']))) 0)
       = {''Creators'', ''Alpha'', ''2023''}"
proof -
  let ?w = "alice_world [''Creators'', ''Old'', ''Extra'']"
  let ?md = "\<lparr>job = ''Creators'', group = ''Alpha''\<rparr>"
  let ?ci = "\<lparr>channelId = ''UC0123456789abcdefghijkl'', title = ''Alice Ch'',
     thumbnailUrl = ''https://img.example/alice_high.jpg''\<rparr>"
  have h1: "events ?w = []" by code_simp
  have h2: "wf_tags ?w" by code_simp
  have h3: "distinct (map t_id (threads ?w))" by code_simp
  have h4: "youtube_id alice_by_handle \<noteq> []" by code_simp
  have h5: "getChannelInfo (demo_env []) (youtube_id alice_by_handle) = Some ?ci" by code_simp
  have h6: "filter (\<lambda>t. t_youtube_id t = channelId ?ci) (threads ?w) = [alice_row]" by code_simp
  have h6': "filter (\<lambda>t. t_youtube_id t = ''UC0123456789abcdefghijkl'') (threads ?w) = [alice_row]"
    by code_simp
  have i: "t_id alice_row = 0" by code_simp
  have a: "assocNames ?w 0 = [''Creators'', ''Old'', ''Extra'']" by code_simp
  have x: "expectedTagNames ?md alice_by_handle = [''Creators'', ''Alpha'', ''2023'']" by code_simp
  from tag_convergence [OF h1 h2 h3 h4 h5 h6, of ?md] i a x
  have "fst (createThread (demo_env []) alice_by_handle ?md ?w)
      \<and> set (assocNames (snd (createThread (demo_env []) alice_by_handle ?md ?w)) 0)
          = {''Creators'', ''Alpha'', ''2023''}"
    by simp
  with h1 h2 h3 h6' a x show ?thesis by simp
qed

text \<open>
  The claim as stated fails. With the options 2023, 2023 the desired names are VTuber,
  Alpha, 2023, 2023; a thread associated with VTuber, Alpha, 2023 and Extra passes the test
  (four names on each side, every desired name present), nothing is written, and Extra
  stays. In the same way an association to a tag with the empty name is not among the
  current names that the test sees, and it stays.
\<close>

theorem extraneous_tag_survives:
  "fst (createThread (demo_env []) alice_twice demo_metadata
         (alice_world [''VTuber'', ''Alpha'', ''2023'', ''Extra'']))
   \<and> map snd (log (snd (createThread (demo_env []) alice_twice demo_metadata
         (alice_world [''VTuber'', ''Alpha'', ''2023'', ''Extra''])))) = [True, True, True]
   \<and> expectedTagNames demo_metadata alice_twice = [''VTuber'', ''Alpha'', ''2023'', ''2023'']
   \<and> assocNames (snd (createThread (demo_env []) alice_twice demo_metadata
         (alice_world [''VTuber'', ''Alpha'', ''2023'', ''Extra'']))) 0
       = [''VTuber'', ''Alpha'', ''2023'', ''Extra'']
   \<and> fst (createThread (demo_env []) alice_by_handle demo_metadata
         (alice_world [''VTuber'', ''Alpha'', ''2023'', []]))
   \<and> expectedTagNames demo_metadata alice_by_handle = [''VTuber'', ''Alpha'', ''2023'']
   \<and> assocNames (snd (createThread (demo_env []) alice_by_handle demo_metadata
         (alice_world [''VTuber'', ''Alpha'', ''2023'', []]))) 0
       = [''VTuber'', ''Alpha'', ''2023'', []]"
  by code_simp

section \<open>Running a record twice\<close>










section \<open>Failures and the exit status\<close>

















end
